theory Spec2Isabelle
  imports Complex_Main
begin

section \<open>Text\<close>

text \<open>
  A Python \<open>str\<close> is modelled as an Isabelle \<open>string\<close>: a list of 8-bit characters, read
  as the code points U+0000 to U+00FF. A Python \<open>float\<close> is modelled as the rational number
  it stands for, with exact arithmetic.
\<close>

definition is_space :: "char \<Rightarrow> bool" where
  \<comment> \<open>the class \<open>\s\<close> of a Unicode pattern, which is also what \<open>str.strip()\<close> removes\<close>
  "is_space c \<longleftrightarrow> (of_char c :: nat) \<in> {9, 10, 11, 12, 13, 28, 29, 30, 31, 32, 133, 160}"

definition is_digit :: "char \<Rightarrow> bool" where
  \<comment> \<open>the class \<open>\d\<close>\<close>
  "is_digit c \<longleftrightarrow> 48 \<le> (of_char c :: nat) \<and> (of_char c :: nat) \<le> 57"

definition lower_char :: "char \<Rightarrow> char" where
  "lower_char c =
     (let n = (of_char c :: nat)
      in if (65 \<le> n \<and> n \<le> 90) \<or> (192 \<le> n \<and> n \<le> 222 \<and> n \<noteq> 215)
         then char_of (n + 32) else c)"

definition lower :: "string \<Rightarrow> string" where
  "lower s = map lower_char s"

definition strip :: "string \<Rightarrow> string" where
  "strip s = rev (dropWhile is_space (rev (dropWhile is_space s)))"

definition endswith_nl :: "string \<Rightarrow> bool" where
  \<comment> \<open>\<open>s.endswith("\n")\<close>\<close>
  "endswith_nl s \<longleftrightarrow> s \<noteq> [] \<and> last s = CHR 0x0A"

section \<open>Durations\<close>

datatype exn = ValueError | KeyError | RuntimeError | OSError | KeyboardInterrupt

definition digit_val :: "char \<Rightarrow> nat" where
  "digit_val c = of_char c - 48"

definition int_of_digits :: "string \<Rightarrow> nat" where
  "int_of_digits ds = foldl (\<lambda>n c. 10 * n + digit_val c) 0 ds"

definition float_of :: "string \<Rightarrow> rat" where
  \<comment> \<open>\<open>float(s)\<close> on a literal \<open>digits\<close> or \<open>digits.digits\<close>, the only shapes group 1 has\<close>
  "float_of s =
     (let ip = takeWhile (\<lambda>c. c \<noteq> CHR ''.'') s;
          fp = drop (Suc (length ip)) s
      in of_nat (int_of_digits ip) + of_nat (int_of_digits fp) / 10 ^ length fp)"

definition match_ci :: "string \<Rightarrow> string \<Rightarrow> bool" where
  \<comment> \<open>the lower-case literal \<open>lit\<close> matches at the front of \<open>s\<close>, ignoring case\<close>
  "match_ci lit s \<longleftrightarrow> length lit \<le> length s \<and> lower (take (length lit) s) = lit"

definition match_unit :: "string \<Rightarrow> string" where
  \<comment> \<open>\<open>(ms|s|m|h)?\<close>: the first alternative that matches, else nothing\<close>
  "match_unit s =
     (if match_ci ''ms'' s then take 2 s
      else if match_ci ''s'' s then take 1 s
      else if match_ci ''m'' s then take 1 s
      else if match_ci ''h'' s then take 1 s
      else [])"

definition DURATION_RE :: "string \<Rightarrow> (string \<times> string option) option" where
  \<comment> \<open>\<open>_DURATION_RE.match(token)\<close>: groups 1 and 2 of
      \<open>^\s*(\d+(?:\.\d+)?)\s*(ms|s|m|h)?\s*$\<close> under IGNORECASE, or no match.
      Each greedy choice is the only one that can lead to a match, so no backtracking
      is written.\<close>
  "DURATION_RE token =
     (let s1 = dropWhile is_space token;
          ip = takeWhile is_digit s1;
          s2 = dropWhile is_digit s1
      in if ip = [] then None
         else
           let fp = (case s2 of [] \<Rightarrow> [] | c # r \<Rightarrow>
                       if c = CHR ''.'' \<and> takeWhile is_digit r \<noteq> []
                       then c # takeWhile is_digit r else []);
               s3 = drop (length fp) s2;
               s4 = dropWhile is_space s3;
               u = match_unit s4;
               s5 = drop (length u) s4
           in if dropWhile is_space s5 = []
              then Some (ip @ fp, if u = [] then None else Some u)
              else None)"

definition factor :: "string \<Rightarrow> rat option" where
  \<comment> \<open>the dict \<open>{"ms": 0.001, "s": 1.0, "m": 60.0, "h": 3600.0}\<close>\<close>
  "factor unit =
     (if unit = ''ms'' then Some (1 / 1000)
      else if unit = ''s'' then Some 1
      else if unit = ''m'' then Some 60
      else if unit = ''h'' then Some 3600
      else None)"

definition parse_duration :: "string \<Rightarrow> exn + rat" where
  "parse_duration token =
     (case DURATION_RE token of
        None \<Rightarrow> Inl ValueError
      | Some (g1, g2) \<Rightarrow>
          (let v = float_of g1;
               unit = lower (case g2 of None \<Rightarrow> ''s'' | Some u \<Rightarrow> u)
           in (case factor unit of
                 None \<Rightarrow> Inl KeyError
               | Some f \<Rightarrow> Inr (v * f))))"

datatype delay_getter = Fixed rat | Uniform rat rat

definition split_dash :: "string \<Rightarrow> string \<times> string" where
  \<comment> \<open>\<open>spec.split("-", 1)\<close> on a string that contains \<open>-\<close>\<close>
  "split_dash spec =
     (takeWhile (\<lambda>c. c \<noteq> CHR ''-'') spec, drop 1 (dropWhile (\<lambda>c. c \<noteq> CHR ''-'') spec))"

definition build_delay_getter :: "string \<Rightarrow> exn + delay_getter" where
  "build_delay_getter spec =
     (if CHR ''-'' \<in> set spec then
        (case split_dash spec of (left, right) \<Rightarrow>
           (case parse_duration left of Inl e \<Rightarrow> Inl e | Inr a \<Rightarrow>
              (case parse_duration right of Inl e \<Rightarrow> Inl e | Inr b \<Rightarrow>
                 (let (lo, hi) = (if a \<le> b then (a, b) else (b, a));
                      lo = max 0 lo
                  in Inr (Uniform lo hi)))))
      else
        (case parse_duration spec of Inl e \<Rightarrow> Inl e | Inr fixed \<Rightarrow>
           Inr (Fixed (max 0 fixed))))"

definition next_delay :: "delay_getter \<Rightarrow> rat \<Rightarrow> rat" where
  \<comment> \<open>one call of the getter; \<open>u\<close> is the value of \<open>random.random()\<close> that
      \<open>random.uniform(lo, hi)\<close> draws, \<open>0 \<le> u < 1\<close>\<close>
  "next_delay g u = (case g of Fixed fixed \<Rightarrow> fixed | Uniform lo hi \<Rightarrow> lo + (hi - lo) * u)"


section \<open>Remote content client\<close>

text \<open>
  \<open>http_request\<close> returns a status code with the decoded JSON body, or an exception
  leaves it (a transport error, or an interruption while it blocks). The remote service
  is outside the program, so what it answers is an input of the model.
\<close>

datatype 'a http = Reply nat 'a | Raises exn

datatype b64 = Decodes string | Malformed
  \<comment> \<open>a base64 payload, given by the text it decodes to\<close>

datatype get_body = Other | Object "b64 option" "string option" "string option"
  \<comment> \<open>the body of a GET: a JSON object, given by what it holds under \<open>content\<close>,
      \<open>encoding\<close> and \<open>sha\<close>, or anything else\<close>

definition get_file :: "get_body http \<Rightarrow> exn + (string option \<times> string option)" where
  "get_file r =
     (case r of
        Raises e \<Rightarrow> Inl e
      | Reply code resp \<Rightarrow>
          (case (if code = 200 then resp else Other) of
             Object (Some c) enc s \<Rightarrow>
               if (case enc of None \<Rightarrow> ''base64'' | Some e \<Rightarrow> e) \<noteq> ''base64'' then Inl RuntimeError
               else (case c of Malformed \<Rightarrow> Inl ValueError | Decodes text \<Rightarrow> Inr (Some text, s))
           | _ \<Rightarrow> if code = 404 then Inr (None, None) else Inl RuntimeError))"

definition truthy :: "string option \<Rightarrow> bool" where
  \<comment> \<open>Python's truth value of a string or \<open>None\<close>\<close>
  "truthy x \<longleftrightarrow> (case x of None \<Rightarrow> False | Some s \<Rightarrow> s \<noteq> [])"

datatype preview = Whole string | Cut string
  \<comment> \<open>\<open>Cut p\<close> is \<open>p\<close> followed by the ellipsis U+2026\<close>

definition shorten :: "string \<Rightarrow> preview" where
  \<comment> \<open>\<open>shorten(s)\<close> with the default \<open>n = 60\<close>\<close>
  "shorten s =
     (let s' = map (\<lambda>c. if c = CHR 0x0A then CHR '' '' else c) (strip s)
      in if length s' \<le> 60 then Whole s' else Cut (take 59 s'))"

record commit_message =
  msg_prefix :: string
  msg_idx :: nat
  msg_total :: nat
  msg_preview :: preview

record put_request =
  put_owner :: string
  put_repo :: string
  put_path :: string
  put_token :: string
  payload_message :: commit_message
  payload_content :: string
  payload_branch :: string
  payload_sha :: "string option"
  payload_committer :: "(string \<times> string) option"

definition put_file ::
  "string \<Rightarrow> string \<Rightarrow> string \<Rightarrow> string \<Rightarrow> commit_message \<Rightarrow> string \<Rightarrow> string \<Rightarrow>
   string option \<Rightarrow> string option \<Rightarrow> string option \<Rightarrow> put_request" where
  \<comment> \<open>the PUT request that \<open>put_file\<close> sends; the base64 coding of the content is left out\<close>
  "put_file owner repo path branch message text token sha committer_name committer_email =
     \<lparr> put_owner = owner, put_repo = repo, put_path = path, put_token = token,
       payload_message = message, payload_content = text, payload_branch = branch,
       payload_sha = (if truthy sha then sha else None),
       payload_committer =
         (if truthy committer_name \<and> truthy committer_email
          then Some (the committer_name, the committer_email) else None) \<rparr>"

datatype jfield = Absent | Null | Str string

record put_body =
  content_sha :: jfield
    \<comment> \<open>\<open>resp["content"]["sha"]\<close>; \<open>Absent\<close> when \<open>content\<close> is missing or empty, or has no \<open>sha\<close>\<close>

section \<open>Commit loop\<close>

record args =
  token :: "string option"
  repo :: string
  path :: string
  branch :: string
  text_arg :: "string option"
  text_file :: "string option"
  delay :: string
  skip_empty :: bool
  start_index :: int
  commit_prefix :: string
  committer_name :: "string option"
  committer_email :: "string option"
  dry_run :: bool

record world =
  GITHUB_TOKEN :: "string option"
  file_text :: string
  stdin_text :: string
  get_reply :: "get_body http"
  put_reply :: "nat \<Rightarrow> put_body http"
  rand :: "nat \<Rightarrow> rat"
  sleep_interrupted :: "nat \<Rightarrow> bool"

text \<open>
  \<open>put_reply w idx\<close> is what the PUT for line \<open>idx\<close> meets, \<open>rand w idx\<close> the value of
  \<open>random.random()\<close> drawn for the pause after it, and \<open>sleep_interrupted w idx\<close> whether
  that pause is interrupted. Reading \<open>text_file\<close> or standard input gives \<open>file_text\<close> or
  \<open>stdin_text\<close>.
\<close>

datatype event = Put put_request | Dry_Run_Log commit_message | Sleep rat

datatype outcome = Exit int | Returns | Uncaught exn

definition exit_status :: "outcome \<Rightarrow> int option" where
  \<comment> \<open>the status the program sets; an exception that nothing catches sets none\<close>
  "exit_status out = (case out of Exit c \<Rightarrow> Some c | Returns \<Rightarrow> Some 0 | Uncaught e \<Rightarrow> None)"

definition is_linebreak :: "char \<Rightarrow> bool" where
  "is_linebreak c \<longleftrightarrow> (of_char c :: nat) \<in> {10, 11, 12, 13, 28, 29, 30, 133}"

fun splitlines_from :: "string \<Rightarrow> string \<Rightarrow> string list" where
  "splitlines_from acc [] = (if acc = [] then [] else [rev acc])"
| "splitlines_from acc [c] = (if is_linebreak c then [rev acc] else [rev (c # acc)])"
| "splitlines_from acc (c # d # cs) =
     (if c = CHR 0x0D \<and> d = CHR 0x0A then rev acc # splitlines_from [] cs
      else if is_linebreak c then rev acc # splitlines_from [] (d # cs)
      else splitlines_from (c # acc) (d # cs))"

definition splitlines :: "string \<Rightarrow> string list" where
  "splitlines raw = splitlines_from [] raw"

definition read_input :: "args \<Rightarrow> world \<Rightarrow> string" where
  "read_input a w =
     (case text_arg a of Some t \<Rightarrow> t
      | None \<Rightarrow> if truthy (text_file a) then file_text w else stdin_text w)"

definition preprocess :: "bool \<Rightarrow> int \<Rightarrow> string list \<Rightarrow> string list" where
  "preprocess skip start lines0 =
     (let lines1 = (if skip then filter (\<lambda>ln. strip ln \<noteq> []) lines0 else lines0)
      in if start > 0 then drop (nat start) lines1 else lines1)"

record loop_state =
  current_text :: string
  file_sha :: "string option"
  committed :: nat

record locals =
  owner :: string
  repo_name :: string
  tok :: string
  getter :: delay_getter
  total :: nat

datatype step = Continue loop_state | Halt loop_state outcome

definition ensure_newline :: "string \<Rightarrow> string" where
  \<comment> \<open>\<open>if current_text and not current_text.endswith("\n"): current_text += "\n"\<close>\<close>
  "ensure_newline t = (if t \<noteq> [] \<and> \<not> endswith_nl t then t @ [CHR 0x0A] else t)"

definition iteration :: "args \<Rightarrow> world \<Rightarrow> locals \<Rightarrow> nat \<Rightarrow> string \<Rightarrow> loop_state \<Rightarrow> event list \<times> step" where
  \<comment> \<open>the body of the \<open>for\<close> loop for line \<open>idx\<close>, inside the \<open>try\<close>\<close>
  "iteration a w l idx line st =
     (let t1 = ensure_newline (current_text st);
          t2 = t1 @ line @ [CHR 0x0A];
          st1 = st\<lparr>current_text := t2\<rparr>;
          msg = \<lparr> msg_prefix = commit_prefix a, msg_idx = idx, msg_total = total l,
                  msg_preview = shorten line \<rparr>
      in if dry_run a then ([Dry_Run_Log msg], Continue st1)
         else
           let req = put_file (owner l) (repo_name l) (path a) (branch a) msg t2 (tok l)
                       (file_sha st1) (committer_name a) (committer_email a)
           in case put_reply w idx of
                Raises e \<Rightarrow>
                  ([Put req], Halt st1 (if e = KeyboardInterrupt then Exit 130 else Uncaught e))
              | Reply code resp \<Rightarrow>
                  if code \<noteq> 200 \<and> code \<noteq> 201 then ([Put req], Halt st1 (Exit 1))
                  else
                    let st2 = st1\<lparr> file_sha := (case content_sha resp of
                                      Absent \<Rightarrow> file_sha st1 | Null \<Rightarrow> None | Str s \<Rightarrow> Some s),
                                    committed := committed st1 + 1 \<rparr>
                    in if idx < total l then
                         let delay_sec = max 0 (next_delay (getter l) (rand w idx))
                         in if sleep_interrupted w idx
                            then ([Put req, Sleep delay_sec], Halt st2 (Exit 130))
                            else ([Put req, Sleep delay_sec], Continue st2)
                       else ([Put req], Continue st2))"

fun commit_loop ::
  "args \<Rightarrow> world \<Rightarrow> locals \<Rightarrow> nat \<Rightarrow> string list \<Rightarrow> loop_state \<Rightarrow> event list \<times> loop_state \<times> outcome" where
  "commit_loop a w l idx [] st = ([], st, Returns)"
| "commit_loop a w l idx (line # rest) st =
     (case iteration a w l idx line st of
        (es, Halt st' out) \<Rightarrow> (es, st', out)
      | (es, Continue st') \<Rightarrow>
          (case commit_loop a w l (idx + 1) rest st' of (es', r) \<Rightarrow> (es @ es', r)))"

definition initial_state :: "string option \<times> string option \<Rightarrow> loop_state" where
  \<comment> \<open>the buffer and the version token after the fetch\<close>
  "initial_state fetched =
     (case fetched of
        (None, s) \<Rightarrow> \<lparr> current_text = [], file_sha = None, committed = 0 \<rparr>
      | (Some t, s) \<Rightarrow> \<lparr> current_text = t, file_sha = s, committed = 0 \<rparr>)"

definition split_slash :: "string \<Rightarrow> string \<times> string" where
  \<comment> \<open>\<open>args.repo.split("/", 1)\<close> on a string that contains \<open>/\<close>\<close>
  "split_slash r =
     (takeWhile (\<lambda>c. c \<noteq> CHR ''/'') r, drop 1 (dropWhile (\<lambda>c. c \<noteq> CHR ''/'') r))"

definition main :: "args \<Rightarrow> world \<Rightarrow> event list \<times> loop_state option \<times> outcome" where
  \<comment> \<open>the remote writes, dry-run messages and pauses of a run, the loop's last state when
      the loop was reached, and how the process ends\<close>
  "main a w =
     (let tk = (if truthy (token a) then token a else GITHUB_TOKEN w)
      in if \<not> truthy tk then ([], None, Exit 2)
         else if CHR ''/'' \<notin> set (repo a) then ([], None, Exit 2)
         else
           (case build_delay_getter (delay a) of
              Inl e \<Rightarrow> ([], None, Exit 2)
            | Inr g \<Rightarrow>
                (let (ow, rp) = split_slash (repo a);
                     lines = preprocess (skip_empty a) (start_index a) (splitlines (read_input a w))
                 in if lines = [] then ([], None, Exit 0)
                    else
                      (case get_file (get_reply w) of
                         Inl e \<Rightarrow> ([], None, if e = KeyboardInterrupt then Uncaught e else Exit 1)
                       | Inr fetched \<Rightarrow>
                           (let l = \<lparr> owner = ow, repo_name = rp, tok = the tk, getter = g,
                                      total = length lines \<rparr>
                            in (case commit_loop a w l 1 lines (initial_state fetched) of
                                  (es, st, out) \<Rightarrow> (es, Some st, out)))))))"

section \<open>Observations of a run\<close>

fun writes :: "event list \<Rightarrow> put_request list" where
  "writes [] = []"
| "writes (Put r # es) = r # writes es"
| "writes (e # es) = writes es"

fun dry_run_logs :: "event list \<Rightarrow> commit_message list" where
  "dry_run_logs [] = []"
| "dry_run_logs (Dry_Run_Log m # es) = m # dry_run_logs es"
| "dry_run_logs (e # es) = dry_run_logs es"

fun sleeps :: "event list \<Rightarrow> rat list" where
  "sleeps [] = []"
| "sleeps (Sleep d # es) = d # sleeps es"
| "sleeps (e # es) = sleeps es"

definition credential :: "args \<Rightarrow> world \<Rightarrow> string option" where
  \<comment> \<open>\<open>args.token or os.getenv("GITHUB_TOKEN")\<close>\<close>
  "credential a w = (if truthy (token a) then token a else GITHUB_TOKEN w)"

definition input_lines :: "args \<Rightarrow> world \<Rightarrow> string list" where
  \<comment> \<open>\<open>lines\<close> when the loop starts\<close>
  "input_lines a w = preprocess (skip_empty a) (start_index a) (splitlines (read_input a w))"

definition locals_of :: "args \<Rightarrow> world \<Rightarrow> delay_getter \<Rightarrow> locals" where
  "locals_of a w g =
     \<lparr> owner = fst (split_slash (repo a)), repo_name = snd (split_slash (repo a)),
       tok = the (credential a w), getter = g, total = length (input_lines a w) \<rparr>"

definition accepted :: "put_body http \<Rightarrow> bool" where
  \<comment> \<open>the write is answered with status 200 or 201\<close>
  "accepted r \<longleftrightarrow> (case r of Reply code resp \<Rightarrow> code = 200 \<or> code = 201 | Raises e \<Rightarrow> False)"

definition append_line :: "string \<Rightarrow> string \<Rightarrow> string" where
  \<comment> \<open>the buffer after one pass through lines 169 to 171\<close>
  "append_line t line = ensure_newline t @ line @ [CHR 0x0A]"

definition terminated :: "string list \<Rightarrow> string" where
  \<comment> \<open>each line followed by a line terminator\<close>
  "terminated ls = concat (map (\<lambda>x. x @ [CHR 0x0A]) ls)"

definition trailing_newlines :: "string \<Rightarrow> nat" where
  \<comment> \<open>how many line terminators the buffer ends with\<close>
  "trailing_newlines t = length (takeWhile (\<lambda>c. c = CHR 0x0A) (rev t))"

definition state_of :: "step \<Rightarrow> loop_state" where
  "state_of s = (case s of Continue st \<Rightarrow> st | Halt st out \<Rightarrow> st)"

definition good_before :: "world \<Rightarrow> nat \<Rightarrow> bool" where
  \<comment> \<open>the writes for lines 1 to \<open>k - 1\<close> are accepted and the pauses after them run to their end\<close>
  "good_before w k \<longleftrightarrow> (\<forall>j\<in>{1..<k}. accepted (put_reply w j) \<and> \<not> sleep_interrupted w j)"

definition example_args :: args where
  "example_args =
     \<lparr> token = Some ''t'', repo = ''o/r'', path = ''notes.txt'', branch = ''main'',
       text_arg = Some ''a\<newline>b\<newline>'', text_file = None, delay = ''0'', skip_empty = False,
       start_index = 0, commit_prefix = ''chore: append line'', committer_name = None,
       committer_email = None, dry_run = False \<rparr>"

definition example_world :: world where
  \<comment> \<open>the file is absent, every write is accepted, nothing is interrupted\<close>
  "example_world =
     \<lparr> GITHUB_TOKEN = None, file_text = [], stdin_text = [], get_reply = Reply 404 Other,
       put_reply = (\<lambda>idx. Reply 201 \<lparr> content_sha = Str ''c0ffee'' \<rparr>),
       rand = (\<lambda>idx. 1 / 2), sleep_interrupted = (\<lambda>idx. False) \<rparr>"

definition rejecting_world :: world where
  \<comment> \<open>as \<open>example_world\<close>, but the write for line 2 is answered with status 500\<close>
  "rejecting_world =
     example_world\<lparr> put_reply := (\<lambda>idx. if idx = 2 then Reply 500 \<lparr> content_sha = Absent \<rparr>
                                           else Reply 201 \<lparr> content_sha = Str ''c0ffee'' \<rparr>) \<rparr>"

definition found_world :: "string option \<Rightarrow> world" where
  \<comment> \<open>as \<open>example_world\<close>, but the file exists with text \<open>x\<close> and the given version token\<close>
  "found_world s = example_world\<lparr> get_reply := Reply 200 (Object (Some (Decodes ''x'')) None s) \<rparr>"










definition interrupted_world :: world where
  \<comment> \<open>as \<open>example_world\<close>, but the pause after line 1 is interrupted\<close>
  "interrupted_world = example_world\<lparr> sleep_interrupted := (\<lambda>idx. idx = 1) \<rparr>"

definition unreachable_world :: world where
  \<comment> \<open>as \<open>example_world\<close>, but the fetch is answered with status 500\<close>
  "unreachable_world = example_world\<lparr> get_reply := Reply 500 Other \<rparr>"

definition starts :: "args \<Rightarrow> world \<Rightarrow> delay_getter \<Rightarrow> bool" where
  \<comment> \<open>the three startup checks pass, and \<open>g\<close> is the delay getter built\<close>
  "starts a w g \<longleftrightarrow>
     truthy (credential a w) \<and> CHR ''/'' \<in> set (repo a) \<and> build_delay_getter (delay a) = Inr g"

definition reaches_loop :: "args \<Rightarrow> world \<Rightarrow> delay_getter \<Rightarrow> bool" where
  \<comment> \<open>the run gets as far as the loop: there are lines and the fetch does not fail\<close>
  "reaches_loop a w g \<longleftrightarrow>
     starts a w g \<and> input_lines a w \<noteq> [] \<and>
     (case get_file (get_reply w) of Inl e \<Rightarrow> False | Inr fetched \<Rightarrow> True)"

section \<open>The loop, step by step\<close>

lemma main_loop:
  "truthy (credential a w) \<Longrightarrow> CHR ''/'' \<in> set (repo a) \<Longrightarrow> build_delay_getter (delay a) = Inr g \<Longrightarrow>
   input_lines a w \<noteq> [] \<Longrightarrow> get_file (get_reply w) = Inr fetched \<Longrightarrow>
   main a w = (case commit_loop a w (locals_of a w g) 1 (input_lines a w) (initial_state fetched) of
                 (es, st, out) \<Rightarrow> (es, Some st, out))"
  by (simp add: main_def credential_def input_lines_def locals_of_def Let_def split: prod.splits)

lemma writes_append: "writes (xs @ ys) = writes xs @ writes ys"
  by (induction xs rule: writes.induct) simp_all

lemma dry_run_logs_append: "dry_run_logs (xs @ ys) = dry_run_logs xs @ dry_run_logs ys"
  by (induction xs rule: dry_run_logs.induct) simp_all

lemma sleeps_append: "sleeps (xs @ ys) = sleeps xs @ sleeps ys"
  by (induction xs rule: sleeps.induct) simp_all

lemma iteration_dry:
  "dry_run a \<Longrightarrow> iteration a w l idx line st =
     ([Dry_Run_Log \<lparr> msg_prefix = commit_prefix a, msg_idx = idx, msg_total = total l, msg_preview = shorten line \<rparr>],
      Continue (st\<lparr>current_text := append_line (current_text st) line\<rparr>))"
  by (simp add: iteration_def append_line_def Let_def)

lemma iteration_accepted:
  "\<not> dry_run a \<Longrightarrow> accepted (put_reply w idx) \<Longrightarrow> \<not> sleep_interrupted w idx \<Longrightarrow>
   \<exists>es st'. iteration a w l idx line st = (es, Continue st') \<and>
     writes es = [put_file (owner l) (repo_name l) (path a) (branch a)
        \<lparr> msg_prefix = commit_prefix a, msg_idx = idx, msg_total = total l, msg_preview = shorten line \<rparr>
        (append_line (current_text st) line) (tok l) (file_sha st) (committer_name a) (committer_email a)] \<and>
     dry_run_logs es = [] \<and>
     current_text st' = append_line (current_text st) line \<and> committed st' = committed st + 1"
  by (auto simp: iteration_def append_line_def accepted_def Let_def split: http.splits)

lemma loop_dry:
  "dry_run a \<Longrightarrow> commit_loop a w l idx ls st =
     (map (\<lambda>(i, line). Dry_Run_Log \<lparr> msg_prefix = commit_prefix a, msg_idx = i, msg_total = total l,
                                      msg_preview = shorten line \<rparr>) (enumerate idx ls),
      st\<lparr>current_text := foldl append_line (current_text st) ls\<rparr>, Returns)"
proof (induction ls arbitrary: idx st)
  case Nil
  then show ?case by simp
next
  case (Cons x xs)
  show ?case
    by (simp add: iteration_dry [OF Cons.prems] Cons.IH [OF Cons.prems])
qed

lemma loop_good:
  "\<not> dry_run a \<Longrightarrow>
   (\<forall>j<length pre. accepted (put_reply w (idx + j)) \<and> \<not> sleep_interrupted w (idx + j)) \<Longrightarrow>
   \<exists>es st'. (\<forall>rest. commit_loop a w l idx (pre @ rest) st =
                 (case commit_loop a w l (idx + length pre) rest st' of (es', r) \<Rightarrow> (es @ es', r))) \<and>
     map payload_content (writes es) =
       map (\<lambda>k. foldl append_line (current_text st) (take (Suc k) pre)) [0..<length pre] \<and>
     map payload_message (writes es) =
       map (\<lambda>k. \<lparr> msg_prefix = commit_prefix a, msg_idx = idx + k, msg_total = total l,
                   msg_preview = shorten (pre ! k) \<rparr>) [0..<length pre] \<and>
     dry_run_logs es = [] \<and>
     current_text st' = foldl append_line (current_text st) pre \<and>
     committed st' = committed st + length pre"
proof (induction pre arbitrary: idx st)
  case Nil
  show ?case
    by (rule exI [of _ "[]"], rule exI [of _ st]) (simp split: prod.splits)
next
  case (Cons x xs)
  from Cons.prems(2) have first: "accepted (put_reply w idx)" "\<not> sleep_interrupted w idx"
    by auto
  from Cons.prems(2) have later:
    "\<forall>j<length xs. accepted (put_reply w (Suc idx + j)) \<and> \<not> sleep_interrupted w (Suc idx + j)"
    by auto
  from iteration_accepted [OF Cons.prems(1) first, of l x st]
  obtain es1 st1 where it: "iteration a w l idx x st = (es1, Continue st1)"
    and w1: "writes es1 = [put_file (owner l) (repo_name l) (path a) (branch a)
        \<lparr> msg_prefix = commit_prefix a, msg_idx = idx, msg_total = total l, msg_preview = shorten x \<rparr>
        (append_line (current_text st) x) (tok l) (file_sha st) (committer_name a) (committer_email a)]"
    and d1: "dry_run_logs es1 = []"
    and t1: "current_text st1 = append_line (current_text st) x"
    and c1: "committed st1 = committed st + 1"
    by blast
  from Cons.IH [OF Cons.prems(1) later, of st1]
  obtain es2 st2 where
    run: "\<And>rest. commit_loop a w l (Suc idx) (xs @ rest) st1 =
                 (case commit_loop a w l (Suc idx + length xs) rest st2 of (es', r) \<Rightarrow> (es2 @ es', r))"
    and w2: "map payload_content (writes es2) =
       map (\<lambda>k. foldl append_line (current_text st1) (take (Suc k) xs)) [0..<length xs]"
    and m2: "map payload_message (writes es2) =
       map (\<lambda>k. \<lparr> msg_prefix = commit_prefix a, msg_idx = Suc idx + k, msg_total = total l,
                   msg_preview = shorten (xs ! k) \<rparr>) [0..<length xs]"
    and d2: "dry_run_logs es2 = []"
    and t2: "current_text st2 = foldl append_line (current_text st1) xs"
    and c2: "committed st2 = committed st1 + length xs"
    by blast
  show ?case
  proof (intro exI [of _ "es1 @ es2"] exI [of _ st2] conjI allI)
    fix rest
    show "commit_loop a w l idx ((x # xs) @ rest) st =
          (case commit_loop a w l (idx + length (x # xs)) rest st2 of (es', r) \<Rightarrow> ((es1 @ es2) @ es', r))"
      by (simp add: it run split: prod.splits)
  next
    show "map payload_content (writes (es1 @ es2)) =
       map (\<lambda>k. foldl append_line (current_text st) (take (Suc k) (x # xs))) [0..<length (x # xs)]"
      by (simp add: writes_append w1 w2 t1 put_file_def map_upt_Suc del: upt_Suc)
  next
    show "map payload_message (writes (es1 @ es2)) =
       map (\<lambda>k. \<lparr> msg_prefix = commit_prefix a, msg_idx = idx + k, msg_total = total l,
                   msg_preview = shorten ((x # xs) ! k) \<rparr>) [0..<length (x # xs)]"
      by (simp add: writes_append w1 m2 put_file_def map_upt_Suc del: upt_Suc)
  next
    show "dry_run_logs (es1 @ es2) = []" by (simp add: dry_run_logs_append d1 d2)
  next
    show "current_text st2 = foldl append_line (current_text st) (x # xs)" by (simp add: t2 t1)
  next
    show "committed st2 = committed st + length (x # xs)" by (simp add: c2 c1)
  qed
qed

lemma ensure_newline_id: "t = [] \<or> endswith_nl t \<Longrightarrow> ensure_newline t = t"
  by (auto simp: ensure_newline_def)

lemma endswith_nl_snoc: "endswith_nl (t @ [CHR 0x0A])"
  by (simp add: endswith_nl_def)

lemma endswith_nl_append_line: "endswith_nl (append_line t x)"
  using endswith_nl_snoc [of "ensure_newline t @ x"] by (simp add: append_line_def)

lemma foldl_append_line:
  "t = [] \<or> endswith_nl t \<Longrightarrow> foldl append_line t ls = t @ terminated ls"
proof (induction ls arbitrary: t)
  case Nil
  show ?case by (simp add: terminated_def)
next
  case (Cons x xs)
  have "append_line t x = t @ x @ [CHR 0x0A]"
    by (simp add: append_line_def ensure_newline_id [OF Cons.prems])
  moreover have "foldl append_line (append_line t x) xs = append_line t x @ terminated xs"
    by (rule Cons.IH) (simp add: endswith_nl_append_line)
  ultimately show ?case by (simp add: terminated_def)
qed

lemma iteration_rejected:
  "\<not> dry_run a \<Longrightarrow> put_reply w idx = Reply code resp \<Longrightarrow> code \<noteq> 200 \<Longrightarrow> code \<noteq> 201 \<Longrightarrow>
   iteration a w l idx line st =
     ([Put (put_file (owner l) (repo_name l) (path a) (branch a)
        \<lparr> msg_prefix = commit_prefix a, msg_idx = idx, msg_total = total l, msg_preview = shorten line \<rparr>
        (append_line (current_text st) line) (tok l) (file_sha st) (committer_name a) (committer_email a))],
      Halt (st\<lparr>current_text := append_line (current_text st) line\<rparr>) (Exit 1))"
  by (simp add: iteration_def append_line_def Let_def)

lemma iteration_put_raises:
  "\<not> dry_run a \<Longrightarrow> put_reply w idx = Raises e \<Longrightarrow>
   iteration a w l idx line st =
     ([Put (put_file (owner l) (repo_name l) (path a) (branch a)
        \<lparr> msg_prefix = commit_prefix a, msg_idx = idx, msg_total = total l, msg_preview = shorten line \<rparr>
        (append_line (current_text st) line) (tok l) (file_sha st) (committer_name a) (committer_email a))],
      Halt (st\<lparr>current_text := append_line (current_text st) line\<rparr>)
        (if e = KeyboardInterrupt then Exit 130 else Uncaught e))"
  by (simp add: iteration_def append_line_def Let_def)

lemma iteration_first_put:
  "\<not> dry_run a \<Longrightarrow>
   \<exists>es s. iteration a w l idx line st =
     (Put (put_file (owner l) (repo_name l) (path a) (branch a)
        \<lparr> msg_prefix = commit_prefix a, msg_idx = idx, msg_total = total l, msg_preview = shorten line \<rparr>
        (append_line (current_text st) line) (tok l) (file_sha st) (committer_name a) (committer_email a)) # es, s)"
  by (auto simp: iteration_def append_line_def Let_def split: http.splits)

lemma loop_first_put:
  assumes "\<not> dry_run a"
  shows "\<exists>es r. commit_loop a w l idx (line # rest) st =
     (Put (put_file (owner l) (repo_name l) (path a) (branch a)
        \<lparr> msg_prefix = commit_prefix a, msg_idx = idx, msg_total = total l, msg_preview = shorten line \<rparr>
        (append_line (current_text st) line) (tok l) (file_sha st) (committer_name a) (committer_email a)) # es, r)"
proof -
  from iteration_first_put [OF assms, of w l idx line st]
  obtain es s where it: "iteration a w l idx line st =
     (Put (put_file (owner l) (repo_name l) (path a) (branch a)
        \<lparr> msg_prefix = commit_prefix a, msg_idx = idx, msg_total = total l, msg_preview = shorten line \<rparr>
        (append_line (current_text st) line) (tok l) (file_sha st) (committer_name a) (committer_email a)) # es, s)"
    by blast
  show ?thesis
    by (cases s) (auto simp: it split: prod.splits)
qed

lemma main_early:
  "\<not> truthy (credential a w) \<or> CHR ''/'' \<notin> set (repo a) \<or> (\<exists>e. build_delay_getter (delay a) = Inl e)
   \<Longrightarrow> main a w = ([], None, Exit 2)"
  by (auto simp: main_def credential_def Let_def)

lemma main_nothing:
  "truthy (credential a w) \<Longrightarrow> CHR ''/'' \<in> set (repo a) \<Longrightarrow> build_delay_getter (delay a) = Inr g \<Longrightarrow>
   input_lines a w = [] \<Longrightarrow> main a w = ([], None, Exit 0)"
  by (simp add: main_def credential_def input_lines_def Let_def split: prod.splits)

lemma main_fetch_fails:
  "truthy (credential a w) \<Longrightarrow> CHR ''/'' \<in> set (repo a) \<Longrightarrow> build_delay_getter (delay a) = Inr g \<Longrightarrow>
   input_lines a w \<noteq> [] \<Longrightarrow> get_file (get_reply w) = Inl e \<Longrightarrow>
   main a w = ([], None, if e = KeyboardInterrupt then Uncaught e else Exit 1)"
  by (simp add: main_def credential_def input_lines_def Let_def split: prod.splits)

lemma main_cases:
  obtains (early) out where "main a w = ([], None, out)"
  | (loop) g fetched where "truthy (credential a w)" "CHR ''/'' \<in> set (repo a)"
      "build_delay_getter (delay a) = Inr g" "input_lines a w \<noteq> []"
      "get_file (get_reply w) = Inr fetched"
proof (cases "truthy (credential a w) \<and> CHR ''/'' \<in> set (repo a)")
  case False
  then show ?thesis using main_early [of a w] early by blast
next
  case ok: True
  show ?thesis
  proof (cases "build_delay_getter (delay a)")
    case (Inl e)
    then show ?thesis using main_early [of a w] early by blast
  next
    case (Inr g)
    show ?thesis
    proof (cases "input_lines a w = []")
      case True
      then show ?thesis using main_nothing [of a w g] ok Inr early by blast
    next
      case False
      show ?thesis
      proof (cases "get_file (get_reply w)")
        case (Inl e)
        then show ?thesis using main_fetch_fails [of a w g e] ok \<open>build_delay_getter (delay a) = Inr g\<close> False early by blast
      next
        case fetched: (Inr f)
        show ?thesis using loop [of g f] ok Inr False fetched by blast
      qed
    qed
  qed
qed

section \<open>Preprocessing\<close>

text \<open>
  C9. A starting offset that is zero or negative leaves the line sequence as it is after the
  optional filter: nothing is dropped, neither from the front nor from the end. Lines are
  dropped only by a positive offset.
\<close>

theorem start_index_not_positive:
  "s \<le> 0 \<Longrightarrow> preprocess skip s ls = (if skip then filter (\<lambda>ln. strip ln \<noteq> []) ls else ls)"
  by (simp add: preprocess_def)

theorem start_index_not_positive_witness:
  "(-1 :: int) \<le> 0 \<and> preprocess False (-1) [''a'', ''b'', ''c''] = [''a'', ''b'', ''c'']"
  using start_index_not_positive [of "-1" False "[''a'', ''b'', ''c'']"] by simp

section \<open>Facts about a whole run\<close>

lemma observe_dry_logs:
  "writes (map (\<lambda>p. Dry_Run_Log (m p)) xs) = [] \<and>
   sleeps (map (\<lambda>p. Dry_Run_Log (m p)) xs) = [] \<and>
   dry_run_logs (map (\<lambda>p. Dry_Run_Log (m p)) xs) = map m xs"
  by (induction xs) auto

lemma get_file_not_found: "get_file (Reply 404 body) = Inr (None, None)"
  by (simp add: get_file_def)

lemma input_lines_plain:
  "\<not> skip_empty a \<Longrightarrow> start_index a = 0 \<Longrightarrow> input_lines a w = splitlines (read_input a w)"
  by (simp add: input_lines_def preprocess_def)

lemma good_beforeD:
  "good_before w (Suc n) \<Longrightarrow> \<forall>j<n. accepted (put_reply w (1 + j)) \<and> \<not> sleep_interrupted w (1 + j)"
  by (auto simp: good_before_def)

lemma map_from_one: "map f [Suc 0..<Suc n] = map (\<lambda>k. f (Suc k)) [0..<n]"
proof -
  have "[Suc 0..<Suc n] = map Suc [0..<n]" by (simp only: map_Suc_upt)
  then show ?thesis by (simp add: comp_def del: upt_Suc)
qed

section \<open>One write per line\<close>

text \<open>
  C1. Skip-empty is unset, the start index is 0 and the fetch answers not-found, so the
  buffer starts empty. The input text splits into the lines \<open>ls\<close>, \<open>N\<close> of them. In a live
  run in which the remote accepts every write and no pause is interrupted, there are exactly
  \<open>N\<close> remote writes, the \<open>k\<close>-th one for line \<open>k\<close> (its message carries \<open>k/N\<close> and the
  preview of line \<open>k\<close>) with a buffer that is the first \<open>k\<close> lines, each followed by a line
  terminator. In dry-run mode the same input gives \<open>N\<close> logged messages, numbered 1 to \<open>N\<close>,
  and no write. Empty lines are lines: with skip-empty unset they are written like the others.
\<close>

theorem one_write_per_line:
  assumes cred: "truthy (credential a w)" and slash: "CHR ''/'' \<in> set (repo a)"
    and del: "build_delay_getter (delay a) = Inr g"
    and plain: "\<not> skip_empty a" "start_index a = 0"
    and absent: "get_reply w = Reply 404 body"
    and ls: "splitlines (read_input a w) = ls"
  shows "(\<not> dry_run a \<and> good_before w (Suc (length ls)) \<longrightarrow>
            length (writes (fst (main a w))) = length ls \<and>
            map payload_content (writes (fst (main a w))) =
              map (\<lambda>k. terminated (take k ls)) [1..<Suc (length ls)] \<and>
            map payload_message (writes (fst (main a w))) =
              map (\<lambda>k. \<lparr> msg_prefix = commit_prefix a, msg_idx = k, msg_total = length ls,
                          msg_preview = shorten (ls ! (k - 1)) \<rparr>) [1..<Suc (length ls)]) \<and>
         (dry_run a \<longrightarrow>
            length (dry_run_logs (fst (main a w))) = length ls \<and>
            map msg_idx (dry_run_logs (fst (main a w))) = [1..<Suc (length ls)] \<and>
            writes (fst (main a w)) = [])"
proof (cases "ls = []")
  case True
  then have "input_lines a w = []" using plain ls by (simp add: input_lines_plain)
  then have "main a w = ([], None, Exit 0)" using cred slash del by (rule main_nothing [rotated 3])
  then show ?thesis using True by simp
next
  case False
  have lines: "input_lines a w = ls" using plain ls by (simp add: input_lines_plain)
  have fetched: "get_file (get_reply w) = Inr (None, None)"
    by (simp add: absent get_file_not_found)
  let ?l = "locals_of a w g"
  let ?st = "initial_state (None, None)"
  have run: "main a w = (case commit_loop a w ?l 1 ls ?st of (es, st, out) \<Rightarrow> (es, Some st, out))"
    using main_loop [OF cred slash del _ fetched] False lines by simp
  have start: "current_text ?st = []" by (simp add: initial_state_def)
  have tot: "total ?l = length ls" by (simp add: locals_of_def lines)
  show ?thesis
  proof (intro conjI impI)
    assume live: "\<not> dry_run a \<and> good_before w (Suc (length ls))"
    from loop_good [of a ls w 1 ?l ?st] live good_beforeD [of w "length ls"]
    obtain es st' where
      loop: "\<And>rest. commit_loop a w ?l 1 (ls @ rest) ?st =
               (case commit_loop a w ?l (1 + length ls) rest st' of (es', r) \<Rightarrow> (es @ es', r))"
      and c: "map payload_content (writes es) =
               map (\<lambda>k. foldl append_line (current_text ?st) (take (Suc k) ls)) [0..<length ls]"
      and m: "map payload_message (writes es) =
               map (\<lambda>k. \<lparr> msg_prefix = commit_prefix a, msg_idx = 1 + k, msg_total = total ?l,
                   msg_preview = shorten (ls ! k) \<rparr>) [0..<length ls]"
      by blast
    from loop [of "[]"] have es: "fst (main a w) = es" by (simp add: run)
    from c have c': "map payload_content (writes es) = map (\<lambda>k. terminated (take k ls)) [1..<Suc (length ls)]"
      by (simp add: start foldl_append_line map_from_one del: upt_Suc)
    show "map payload_content (writes (fst (main a w))) =
              map (\<lambda>k. terminated (take k ls)) [1..<Suc (length ls)]"
      by (simp only: es c')
    from arg_cong [OF c', of length]
    show "length (writes (fst (main a w))) = length ls"
      by (simp add: es del: upt_Suc)
    show "map payload_message (writes (fst (main a w))) =
              map (\<lambda>k. \<lparr> msg_prefix = commit_prefix a, msg_idx = k, msg_total = length ls,
                          msg_preview = shorten (ls ! (k - 1)) \<rparr>) [1..<Suc (length ls)]"
      by (simp add: es m tot map_from_one del: upt_Suc)
  next
    assume dry: "dry_run a"
    have es: "fst (main a w) =
        map (\<lambda>p. Dry_Run_Log \<lparr> msg_prefix = commit_prefix a, msg_idx = fst p, msg_total = total ?l,
                                 msg_preview = shorten (snd p) \<rparr>) (enumerate 1 ls)"
      by (simp add: run loop_dry [OF dry] case_prod_unfold)
    show "length (dry_run_logs (fst (main a w))) = length ls"
      by (simp add: es observe_dry_logs)
    show "writes (fst (main a w)) = []"
      by (simp add: es observe_dry_logs)
    show "map msg_idx (dry_run_logs (fst (main a w))) = [1..<Suc (length ls)]"
      by (simp add: es observe_dry_logs comp_def map_fst_enumerate del: upt_Suc)
  qed
qed

lemma example_starts:
  "truthy (credential example_args example_world)"
  "CHR ''/'' \<in> set (repo example_args)"
  "build_delay_getter (delay example_args) = Inr (Fixed 0)"
  "\<not> skip_empty example_args" "start_index example_args = 0"
  "get_reply example_world = Reply 404 Other"
  "splitlines (read_input example_args example_world) = [''a'', ''b'']"
  "good_before example_world k"
  by (simp_all add: example_args_def example_world_def credential_def truthy_def good_before_def accepted_def
     build_delay_getter_def parse_duration_def
     DURATION_RE_def is_space_def is_digit_def match_unit_def match_ci_def lower_def lower_char_def
     float_of_def int_of_digits_def digit_val_def factor_def Let_def
     splitlines_def is_linebreak_def read_input_def)

theorem one_write_per_line_witness:
  "map payload_content (writes (fst (main example_args example_world))) = [''a\<newline>'', ''a\<newline>b\<newline>''] \<and>
   map (msg_idx \<circ> payload_message) (writes (fst (main example_args example_world))) = [1, 2] \<and>
   length (dry_run_logs (fst (main (example_args\<lparr>dry_run := True\<rparr>) example_world))) = 2 \<and>
   writes (fst (main (example_args\<lparr>dry_run := True\<rparr>) example_world)) = []"
proof -
  have live: "\<not> dry_run example_args" by (simp add: example_args_def)
  have same: "credential (example_args\<lparr>dry_run := True\<rparr>) = credential example_args"
    "read_input (example_args\<lparr>dry_run := True\<rparr>) = read_input example_args"
    by (simp_all add: credential_def read_input_def fun_eq_iff)
  note l = one_write_per_line [OF example_starts(1-7), THEN conjunct1, rule_format, OF conjI, OF live example_starts(8)]
  have d: "length (dry_run_logs (fst (main (example_args\<lparr>dry_run := True\<rparr>) example_world))) = length [''a'', ''b''] \<and>
            map msg_idx (dry_run_logs (fst (main (example_args\<lparr>dry_run := True\<rparr>) example_world))) = [1..<Suc (length [''a'', ''b''])] \<and>
            writes (fst (main (example_args\<lparr>dry_run := True\<rparr>) example_world)) = []"
    by (rule one_write_per_line [of "example_args\<lparr>dry_run := True\<rparr>" example_world "Fixed 0" Other, THEN conjunct2, rule_format])
       (simp_all add: same example_starts)
  from l d show ?thesis
    by (simp add: terminated_def map_map [symmetric] del: map_map)
qed

section \<open>Runs that stop in the loop\<close>

lemma iteration_sleep_interrupted:
  "\<not> dry_run a \<Longrightarrow> accepted (put_reply w idx) \<Longrightarrow> idx < total l \<Longrightarrow> sleep_interrupted w idx \<Longrightarrow>
   \<exists>es st'. iteration a w l idx line st = (es, Halt st' (Exit 130)) \<and>
     map payload_content (writes es) = [append_line (current_text st) line] \<and>
     committed st' = committed st + 1"
  by (auto simp: iteration_def accepted_def append_line_def put_file_def Let_def split: http.splits)

lemma foldl_append_line_snoc:
  "map (\<lambda>k. foldl append_line t (take (Suc k) (pre @ [line]))) [0..<Suc (length pre)] =
   map (\<lambda>k. foldl append_line t (take (Suc k) pre)) [0..<length pre] @
     [append_line (foldl append_line t pre) line]"
  by simp

lemma loop_halts_after:
  assumes live: "\<not> dry_run a"
    and good: "\<forall>j<length pre. accepted (put_reply w (idx + j)) \<and> \<not> sleep_interrupted w (idx + j)"
    and halt: "\<And>st1. \<exists>es1 st2. iteration a w l (idx + length pre) line st1 = (es1, Halt st2 out) \<and>
                 committed st2 = committed st1 + d \<and>
                 map payload_content (writes es1) = [append_line (current_text st1) line]"
  shows "\<exists>es st2. commit_loop a w l idx (pre @ line # post) st = (es, st2, out) \<and>
           committed st2 = committed st + length pre + d \<and>
           map payload_content (writes es) =
             map (\<lambda>k. foldl append_line (current_text st) (take (Suc k) (pre @ [line])))
               [0..<Suc (length pre)]"
proof -
  from loop_good [OF live good, of l st]
  obtain es st' where
    loop: "\<And>rest. commit_loop a w l idx (pre @ rest) st =
               (case commit_loop a w l (idx + length pre) rest st' of (es', r) \<Rightarrow> (es @ es', r))"
    and c: "map payload_content (writes es) =
               map (\<lambda>k. foldl append_line (current_text st) (take (Suc k) pre)) [0..<length pre]"
    and t: "current_text st' = foldl append_line (current_text st) pre"
    and n: "committed st' = committed st + length pre"
    by blast
  from halt [of st'] obtain es1 st2 where
    it: "iteration a w l (idx + length pre) line st' = (es1, Halt st2 out)"
    and n1: "committed st2 = committed st' + d"
    and c1: "map payload_content (writes es1) = [append_line (current_text st') line]"
    by auto
  have "commit_loop a w l idx (pre @ line # post) st = (es @ es1, st2, out)"
    by (simp add: loop it)
  moreover have "committed st2 = committed st + length pre + d"
    by (simp add: n1 n)
  moreover have "map payload_content (writes (es @ es1)) =
             map (\<lambda>k. foldl append_line (current_text st) (take (Suc k) (pre @ [line])))
               [0..<Suc (length pre)]"
    by (simp only: foldl_append_line_snoc writes_append map_append c c1 t)
  ultimately show ?thesis by blast
qed

lemma good_before_prefix:
  "good_before w (Suc i) \<Longrightarrow> \<forall>j<i. accepted (put_reply w (1 + j)) \<and> \<not> sleep_interrupted w (1 + j)"
  by (auto simp: good_before_def)

lemma initial_committed: "committed (initial_state fetched) = 0"
  by (cases fetched) (simp add: initial_state_def split: option.splits)

lemma main_halts_at:
  assumes cred: "truthy (credential a w)" and slash: "CHR ''/'' \<in> set (repo a)"
    and del: "build_delay_getter (delay a) = Inr g"
    and live: "\<not> dry_run a"
    and fetched: "get_file (get_reply w) = Inr fetched"
    and i: "i < length (input_lines a w)"
    and good: "good_before w (Suc i)"
    and halt: "\<And>st1. \<exists>es1 st2. iteration a w (locals_of a w g) (Suc i) (input_lines a w ! i) st1 = (es1, Halt st2 out) \<and>
                 committed st2 = committed st1 + d \<and>
                 map payload_content (writes es1) = [append_line (current_text st1) (input_lines a w ! i)]"
  shows "\<exists>es st. main a w = (es, Some st, out) \<and> committed st = i + d \<and>
           map payload_content (writes es) =
             map (\<lambda>j. foldl append_line (current_text (initial_state fetched)) (take j (input_lines a w)))
               [1..<Suc (Suc i)]"
proof -
  let ?ls = "input_lines a w"
  let ?pre = "take i ?ls"
  have split: "?ls = ?pre @ ?ls ! i # drop (Suc i) ?ls"
    using i by (rule id_take_nth_drop)
  have len: "length ?pre = i" using i by simp
  have ne: "?ls \<noteq> []" using i by auto
  have run: "main a w = (case commit_loop a w (locals_of a w g) 1 ?ls (initial_state fetched) of
                 (es, st, out) \<Rightarrow> (es, Some st, out))"
    by (rule main_loop [OF cred slash del ne fetched])
  have good': "\<forall>j<length ?pre. accepted (put_reply w (1 + j)) \<and> \<not> sleep_interrupted w (1 + j)"
    using good_before_prefix [OF good] len by simp
  have halt': "\<And>st1. \<exists>es1 st2. iteration a w (locals_of a w g) (1 + length ?pre) (?ls ! i) st1 = (es1, Halt st2 out) \<and>
                 committed st2 = committed st1 + d \<and>
                 map payload_content (writes es1) = [append_line (current_text st1) (?ls ! i)]"
    using halt len by simp
  from loop_halts_after [OF live good' halt', of "drop (Suc i) ?ls" "initial_state fetched"]
  obtain es st2 where
    loop: "commit_loop a w (locals_of a w g) 1 (?pre @ ?ls ! i # drop (Suc i) ?ls) (initial_state fetched) = (es, st2, out)"
    and n: "committed st2 = committed (initial_state fetched) + length ?pre + d"
    and c: "map payload_content (writes es) =
             map (\<lambda>k. foldl append_line (current_text (initial_state fetched)) (take (Suc k) (?pre @ [?ls ! i])))
               [0..<Suc (length ?pre)]"
    by blast
  have pre1: "?pre @ [?ls ! i] = take (Suc i) ?ls"
    using i by (simp add: take_Suc_conv_app_nth)
  have "main a w = (es, Some st2, out)"
    using loop split run by simp
  moreover have "committed st2 = i + d"
    using i by (simp add: n initial_committed min_def)
  moreover have "map payload_content (writes es) =
             map (\<lambda>j. foldl append_line (current_text (initial_state fetched)) (take j ?ls))
               [1..<Suc (Suc i)]"
  proof -
    have "take (Suc k) (take (Suc i) ?ls) = take (Suc k) ?ls" if "k < Suc i" for k
      using that by (simp add: min_def)
    then have "map (\<lambda>k. foldl append_line (current_text (initial_state fetched)) (take (Suc k) (take (Suc i) ?ls)))
               [0..<Suc i] =
          map (\<lambda>k. foldl append_line (current_text (initial_state fetched)) (take (Suc k) ?ls)) [0..<Suc i]"
      by (intro map_cong) auto
    then show ?thesis
      by (simp only: c pre1 len One_nat_def map_from_one)
  qed
  ultimately show ?thesis by blast
qed

section \<open>A failing write\<close>

text \<open>
  C5. In a live run that reaches the loop, let the writes for lines 1 to \<open>k - 1\<close> be accepted
  and the write for line \<open>k\<close> be answered with a status other than 200 and 201. Then the run
  ends at once with exit status 1, after exactly \<open>k - 1\<close> counted commits. It made exactly
  \<open>k\<close> write calls, one for each of the lines 1 to \<open>k\<close> and each with the whole buffer so far:
  the failed write is not repeated, nothing is written for a later line, and no call undoes
  an earlier commit.
\<close>

theorem write_failure_halts:
  assumes cred: "truthy (credential a w)" and slash: "CHR ''/'' \<in> set (repo a)"
    and del: "build_delay_getter (delay a) = Inr g"
    and live: "\<not> dry_run a"
    and fetched: "get_file (get_reply w) = Inr fetched"
    and k: "1 \<le> k" "k \<le> length (input_lines a w)"
    and good: "good_before w k"
    and fail: "put_reply w k = Reply code resp" "code \<noteq> 200" "code \<noteq> 201"
  shows "\<exists>es st. main a w = (es, Some st, Exit 1) \<and> committed st = k - 1 \<and>
           length (writes es) = k \<and>
           map payload_content (writes es) =
             map (\<lambda>j. foldl append_line (current_text (initial_state fetched)) (take j (input_lines a w)))
               [1..<Suc k]"
proof -
  obtain i where ki: "k = Suc i" using k(1) by (cases k) auto
  have i: "i < length (input_lines a w)" using k(2) ki by simp
  have halt: "\<exists>es1 st2. iteration a w (locals_of a w g) (Suc i) (input_lines a w ! i) st1 = (es1, Halt st2 (Exit 1)) \<and>
                 committed st2 = committed st1 + 0 \<and>
                 map payload_content (writes es1) = [append_line (current_text st1) (input_lines a w ! i)]" for st1
    using iteration_rejected [OF live fail [unfolded ki], of "locals_of a w g" "input_lines a w ! i" st1]
    by (simp add: put_file_def)
  from main_halts_at [OF cred slash del live fetched i good [unfolded ki] halt]
  obtain es st where m: "main a w = (es, Some st, Exit 1)" and n: "committed st = i + 0"
    and c: "map payload_content (writes es) =
             map (\<lambda>j. foldl append_line (current_text (initial_state fetched)) (take j (input_lines a w)))
               [1..<Suc (Suc i)]"
    by blast
  from arg_cong [OF c, of length] have "length (writes es) = k"
    by (simp add: ki del: upt_Suc)
  with m n c show ?thesis by (simp add: ki del: upt_Suc)
qed

lemma example_lines: "input_lines example_args w = [''a'', ''b'']"
  by (simp add: input_lines_def preprocess_def example_args_def splitlines_def is_linebreak_def read_input_def)

theorem write_failure_halts_witness:
  "snd (snd (main example_args rejecting_world)) = Exit 1 \<and>
   map_option committed (fst (snd (main example_args rejecting_world))) = Some 1 \<and>
   map payload_content (writes (fst (main example_args rejecting_world))) = [''a\<newline>'', ''a\<newline>b\<newline>'']"
proof -
  have h: "truthy (credential example_args rejecting_world)" "CHR ''/'' \<in> set (repo example_args)"
    "\<not> dry_run example_args"
    "get_file (get_reply rejecting_world) = Inr (None, None)"
    "(1::nat) \<le> 2" "2 \<le> length (input_lines example_args rejecting_world)"
    "good_before rejecting_world 2"
    "put_reply rejecting_world 2 = Reply 500 \<lparr> content_sha = Absent \<rparr>" "(500::nat) \<noteq> 200" "(500::nat) \<noteq> 201"
    by (simp_all add: example_lines, simp_all add: example_args_def example_world_def rejecting_world_def credential_def truthy_def
          good_before_def accepted_def get_file_def)
  from write_failure_halts [OF h(1,2) example_starts(3) h(3-)]
  show ?thesis
    by (auto simp: example_lines initial_state_def append_line_def ensure_newline_def endswith_nl_def
          eval_nat_numeral)
qed

section \<open>The version token of the first write\<close>

text \<open>
  C6, as the code has it. In a live run that reaches the loop, there is a first write. When
  the fetch reports the file as absent, that write carries no version token. When the
  fetch finds the file, it carries the token the fetch returned, provided that token is not
  the empty string; \<open>put_file\<close> tests the token for truth, so an empty token, like a missing
  one, is sent as no token.
\<close>

theorem first_write_token:
  assumes cred: "truthy (credential a w)" and slash: "CHR ''/'' \<in> set (repo a)"
    and del: "build_delay_getter (delay a) = Inr g"
    and live: "\<not> dry_run a"
    and lines: "input_lines a w \<noteq> []"
    and fetched: "get_file (get_reply w) = Inr (t, s)"
  shows "\<exists>req rest. writes (fst (main a w)) = req # rest \<and>
           (t = None \<longrightarrow> payload_sha req = None) \<and>
           (t \<noteq> None \<and> s \<noteq> Some [] \<longrightarrow> payload_sha req = s) \<and>
           (t \<noteq> None \<and> s = Some [] \<longrightarrow> payload_sha req = None)"
proof -
  let ?l = "locals_of a w g"
  let ?st = "initial_state (t, s)"
  obtain line rest where ls: "input_lines a w = line # rest"
    using lines by (cases "input_lines a w") auto
  have run: "main a w = (case commit_loop a w ?l 1 (line # rest) ?st of (es, st, out) \<Rightarrow> (es, Some st, out))"
    using main_loop [OF cred slash del lines fetched] ls by simp
  let ?req = "put_file (owner ?l) (repo_name ?l) (path a) (branch a)
        \<lparr> msg_prefix = commit_prefix a, msg_idx = 1, msg_total = total ?l, msg_preview = shorten line \<rparr>
        (append_line (current_text ?st) line) (tok ?l) (file_sha ?st) (committer_name a) (committer_email a)"
  from loop_first_put [OF live, of w ?l 1 line rest ?st]
  obtain es r where loop: "commit_loop a w ?l 1 (line # rest) ?st = (Put ?req # es, r)"
    by blast
  have "fst (main a w) = Put ?req # es"
    unfolding run loop by (cases r) simp
  then have first: "writes (fst (main a w)) = ?req # writes es"
    by simp
  have sha: "payload_sha (put_file ow rp p b m c k x cn ce) = (if truthy x then x else None)"
    for ow rp p b m c k x cn ce
    by (simp add: put_file_def)
  have "t = None \<longrightarrow> payload_sha ?req = None"
    by (simp add: sha initial_state_def truthy_def)
  moreover have "t \<noteq> None \<and> s \<noteq> Some [] \<longrightarrow> payload_sha ?req = s"
    by (auto simp: sha initial_state_def truthy_def split: option.splits)
  moreover have "t \<noteq> None \<and> s = Some [] \<longrightarrow> payload_sha ?req = None"
    by (auto simp: sha initial_state_def truthy_def split: option.splits)
  ultimately show ?thesis using first by blast
qed

theorem first_write_token_witness:
  "map payload_sha (writes (fst (main example_args example_world))) = [None, Some ''c0ffee''] \<and>
   map payload_sha (writes (fst (main example_args (found_world (Some ''abc''))))) = [Some ''abc'', Some ''c0ffee'']"
proof -
  have absent: "get_file (get_reply example_world) = Inr (None, None)"
    by (simp add: example_world_def get_file_def)
  have found: "get_file (get_reply (found_world (Some ''abc''))) = Inr (Some ''x'', Some ''abc'')"
    by (simp add: found_world_def get_file_def)
  have h: "truthy (credential example_args w)" "\<not> dry_run example_args" "input_lines example_args w \<noteq> []" for w
    by (simp_all add: example_lines, simp_all add: example_args_def credential_def truthy_def)
  from first_write_token [OF h(1) example_starts(2,3) h(2,3) absent]
  have 1: "hd (map payload_sha (writes (fst (main example_args example_world)))) = None"
    by auto
  from first_write_token [OF h(1) example_starts(2,3) h(2,3) found]
  have 2: "hd (map payload_sha (writes (fst (main example_args (found_world (Some ''abc'')))))) = Some ''abc''"
    by auto
  have 3: "map payload_sha (writes (fst (main example_args example_world))) =
      [hd (map payload_sha (writes (fst (main example_args example_world)))), Some ''c0ffee'']"
    by code_simp
  have 4: "map payload_sha (writes (fst (main example_args (found_world (Some ''abc''))))) =
      [hd (map payload_sha (writes (fst (main example_args (found_world (Some ''abc'')))))), Some ''c0ffee'']"
    by code_simp
  from 3 4 show ?thesis by (simp only: 1 2)
qed

theorem first_write_token_counterexample:
  "get_file (get_reply (found_world (Some ''''))) = Inr (Some ''x'', Some '''') \<and>
   map payload_sha (writes (fst (main example_args (found_world (Some ''''))))) = [None, Some ''c0ffee''] \<and>
   payload_sha (hd (writes (fst (main example_args (found_world (Some '''')))))) \<noteq> Some ''''"
  by code_simp

section \<open>The trailing line terminator\<close>

text \<open>
  C7, as the code has it. In every iteration, whatever the buffer holds (any fetched content
  included), the buffer to which the line is appended is the old buffer, with one line
  terminator added when it was non-empty and did not end with one, and unchanged otherwise:
  nothing is ever removed. So, when it is non-empty, it ends with at least one line
  terminator, and with more than one when the old buffer did. After the append the buffer
  ends with a line terminator.
\<close>

theorem buffer_ends_with_newline:
  "(current_text st \<noteq> [] \<and> \<not> endswith_nl (current_text st) \<longrightarrow>
      ensure_newline (current_text st) = current_text st @ [CHR 0x0A]) \<and>
   (current_text st = [] \<or> endswith_nl (current_text st) \<longrightarrow>
      ensure_newline (current_text st) = current_text st) \<and>
   (ensure_newline (current_text st) \<noteq> [] \<longrightarrow>
      endswith_nl (ensure_newline (current_text st)) \<and>
      1 \<le> trailing_newlines (ensure_newline (current_text st))) \<and>
   current_text (state_of (snd (iteration a w l idx line st))) =
     ensure_newline (current_text st) @ line @ [CHR 0x0A] \<and>
   endswith_nl (current_text (state_of (snd (iteration a w l idx line st))))"
proof -
  have pos: "1 \<le> trailing_newlines t" if "endswith_nl t" for t
    using that by (cases t rule: rev_cases) (auto simp: trailing_newlines_def endswith_nl_def)
  have before: "endswith_nl (ensure_newline t)" if "ensure_newline t \<noteq> []" for t
    using that by (auto simp: ensure_newline_def endswith_nl_def)
  have after: "current_text (state_of (snd (iteration a w l idx line st))) =
     ensure_newline (current_text st) @ line @ [CHR 0x0A]"
    by (auto simp: iteration_def state_of_def Let_def split: http.splits)
  have "endswith_nl (ensure_newline (current_text st) @ line @ [CHR 0x0A])"
    using endswith_nl_snoc [of "ensure_newline (current_text st) @ line"] by simp
  with after pos before show ?thesis
    by (auto simp: ensure_newline_def)
qed

theorem buffer_ends_with_newline_witness:
  "ensure_newline ''x'' = ''x\<newline>'' \<and> ensure_newline ''x\<newline>\<newline>'' = ''x\<newline>\<newline>'' \<and>
   endswith_nl (ensure_newline ''x'') \<and>
   current_text (state_of (snd (iteration example_args example_world (locals_of example_args example_world (Fixed 0)) 1
     ''b'' \<lparr> current_text = ''x'', file_sha = None, committed = 0 \<rparr>))) = ''x\<newline>b\<newline>''"
proof -
  let ?st = "\<lparr> current_text = ''x'', file_sha = None, committed = 0 \<rparr>"
  let ?st2 = "\<lparr> current_text = ''x\<newline>\<newline>'', file_sha = None, committed = 0 \<rparr>"
  have h: "current_text ?st \<noteq> [] \<and> \<not> endswith_nl (current_text ?st)"
    "current_text ?st2 = [] \<or> endswith_nl (current_text ?st2)"
    by (simp_all add: endswith_nl_def)
  note t = buffer_ends_with_newline [of ?st example_args example_world
      "locals_of example_args example_world (Fixed 0)" 1 "''b''"]
  note t2 = buffer_ends_with_newline [of ?st2 example_args example_world
      "locals_of example_args example_world (Fixed 0)" 1 "''b''"]
  from t h(1) have a: "ensure_newline ''x'' = ''x\<newline>''" by simp
  from t2 h(2) have b: "ensure_newline ''x\<newline>\<newline>'' = ''x\<newline>\<newline>''" by simp
  from t a have c: "endswith_nl (ensure_newline ''x'')" by simp
  from t a have d: "current_text (state_of (snd (iteration example_args example_world
      (locals_of example_args example_world (Fixed 0)) 1 ''b'' ?st))) = ''x\<newline>b\<newline>''" by simp
  from a b c d show ?thesis by blast
qed

theorem buffer_ends_with_newline_counterexample:
  "ensure_newline ''x\<newline>\<newline>'' \<noteq> [] \<and> trailing_newlines (ensure_newline ''x\<newline>\<newline>'') = 2 \<and>
   current_text (state_of (snd (iteration example_args example_world (locals_of example_args example_world (Fixed 0)) 1
     ''b'' \<lparr> current_text = ''x\<newline>\<newline>'', file_sha = Some ''abc'', committed = 0 \<rparr>))) = ''x\<newline>\<newline>b\<newline>''"
  by code_simp

section \<open>Dry run\<close>

text \<open>
  C8. In dry-run mode, for every input and every behaviour of the remote: the run makes no
  write call and no pause (no delay is drawn or slept); when the loop is reached, the
  version token at its end is the one the fetch left and no commit is counted; and each
  iteration logs its would-be commit message, changes nothing but the buffer, and goes on
  to the next line.
\<close>

theorem dry_run_frame:
  assumes dry: "dry_run a"
  shows "writes (fst (main a w)) = [] \<and> sleeps (fst (main a w)) = [] \<and>
         (\<forall>st. fst (snd (main a w)) = Some st \<longrightarrow>
            (\<exists>fetched. get_file (get_reply w) = Inr fetched \<and>
               file_sha st = file_sha (initial_state fetched) \<and> committed st = 0 \<and>
               length (dry_run_logs (fst (main a w))) = length (input_lines a w))) \<and>
         iteration a w l idx line st0 =
           ([Dry_Run_Log \<lparr> msg_prefix = commit_prefix a, msg_idx = idx, msg_total = total l,
                           msg_preview = shorten line \<rparr>],
            Continue (st0\<lparr>current_text := append_line (current_text st0) line\<rparr>))"
proof (cases a w rule: main_cases)
  case (early out)
  then show ?thesis by (simp add: iteration_dry [OF dry])
next
  case (loop g fetched)
  let ?l = "locals_of a w g"
  have run: "main a w =
      (map (\<lambda>p. Dry_Run_Log \<lparr> msg_prefix = commit_prefix a, msg_idx = fst p, msg_total = total ?l,
                                 msg_preview = shorten (snd p) \<rparr>) (enumerate 1 (input_lines a w)),
       Some ((initial_state fetched)\<lparr>current_text :=
          foldl append_line (current_text (initial_state fetched)) (input_lines a w)\<rparr>), Returns)"
    by (simp add: main_loop [OF loop] loop_dry [OF dry] case_prod_unfold)
  show ?thesis
    by (simp add: run observe_dry_logs loop(5) initial_committed iteration_dry [OF dry])
qed

theorem dry_run_frame_witness:
  "writes (fst (main (example_args\<lparr>dry_run := True\<rparr>) example_world)) = [] \<and>
   sleeps (fst (main (example_args\<lparr>dry_run := True\<rparr>) example_world)) = [] \<and>
   map_option file_sha (fst (snd (main (example_args\<lparr>dry_run := True\<rparr>) (found_world (Some ''abc''))))) = Some (Some ''abc'') \<and>
   map msg_idx (dry_run_logs (fst (main (example_args\<lparr>dry_run := True\<rparr>) (found_world (Some ''abc''))))) = [1, 2]"
proof -
  let ?a = "example_args\<lparr>dry_run := True\<rparr>"
  have dry: "dry_run ?a" by simp
  have found: "get_file (get_reply (found_world (Some ''abc''))) = Inr (Some ''x'', Some ''abc'')"
    by (simp add: found_world_def get_file_def)
  have run: "fst (snd (main ?a (found_world (Some ''abc'')))) =
      Some \<lparr> current_text = ''x\<newline>a\<newline>b\<newline>'', file_sha = Some ''abc'', committed = 0 \<rparr>"
    "map msg_idx (dry_run_logs (fst (main ?a (found_world (Some ''abc''))))) = [1, 2]"
    by code_simp+
  from dry_run_frame [OF dry, of example_world] have 1:
    "writes (fst (main ?a example_world)) = []" "sleeps (fst (main ?a example_world)) = []"
    by simp_all
  from dry_run_frame [OF dry, of "found_world (Some ''abc'')"] run(1) found
  have "file_sha \<lparr> current_text = ''x\<newline>a\<newline>b\<newline>'', file_sha = Some ''abc'', committed = 0 \<rparr> =
        file_sha (initial_state (Some ''x'', Some ''abc''))"
    by simp
  with 1 run show ?thesis by simp
qed

section \<open>The committer\<close>

text \<open>
  C10, as the code has it. The request carries a committer exactly when a committer name
  and a committer email are both given and both non-empty, and then it carries these two.
  When one of them is missing, the request has no committer field, whatever the other is.
  \<open>put_file\<close> tests both for truth, so a name or an email given as the empty string
  counts as missing.
\<close>

theorem committer_needs_both:
  "(payload_committer (put_file ow rp p b m c k s cn ce) \<noteq> None \<longleftrightarrow>
      (\<exists>n e. cn = Some n \<and> ce = Some e \<and> n \<noteq> [] \<and> e \<noteq> [])) \<and>
   (\<forall>n e. cn = Some n \<and> ce = Some e \<and> n \<noteq> [] \<and> e \<noteq> [] \<longrightarrow>
      payload_committer (put_file ow rp p b m c k s cn ce) = Some (n, e)) \<and>
   (cn = None \<or> ce = None \<longrightarrow> payload_committer (put_file ow rp p b m c k s cn ce) = None)"
  by (auto simp: put_file_def truthy_def split: option.splits)

theorem committer_needs_both_witness:
  "payload_committer (put_file ''o'' ''r'' ''p'' ''main''
     \<lparr> msg_prefix = ''c'', msg_idx = 1, msg_total = 1, msg_preview = Whole ''a'' \<rparr> ''a\<newline>'' ''t'' None
     (Some ''Ann'') (Some ''ann@example.org'')) = Some (''Ann'', ''ann@example.org'') \<and>
   payload_committer (put_file ''o'' ''r'' ''p'' ''main''
     \<lparr> msg_prefix = ''c'', msg_idx = 1, msg_total = 1, msg_preview = Whole ''a'' \<rparr> ''a\<newline>'' ''t'' None
     (Some ''Ann'') None) = None"
proof -
  note t = committer_needs_both [of "''o''" "''r''" "''p''" "''main''"
     "\<lparr> msg_prefix = ''c'', msg_idx = 1, msg_total = 1, msg_preview = Whole ''a'' \<rparr>" "''a\<newline>''" "''t''" None]
  from t [of "Some ''Ann''" "Some ''ann@example.org''"]
  have 1: "payload_committer (put_file ''o'' ''r'' ''p'' ''main''
     \<lparr> msg_prefix = ''c'', msg_idx = 1, msg_total = 1, msg_preview = Whole ''a'' \<rparr> ''a\<newline>'' ''t'' None
     (Some ''Ann'') (Some ''ann@example.org'')) = Some (''Ann'', ''ann@example.org'')"
    by simp
  from t [of "Some ''Ann''" None]
  have 2: "payload_committer (put_file ''o'' ''r'' ''p'' ''main''
     \<lparr> msg_prefix = ''c'', msg_idx = 1, msg_total = 1, msg_preview = Whole ''a'' \<rparr> ''a\<newline>'' ''t'' None
     (Some ''Ann'') None) = None"
    by simp
  from 1 2 show ?thesis by blast
qed

theorem committer_needs_both_counterexample:
  "payload_committer (put_file ''o'' ''r'' ''p'' ''main''
     \<lparr> msg_prefix = ''c'', msg_idx = 1, msg_total = 1, msg_preview = Whole ''a'' \<rparr> ''a\<newline>'' ''t'' None
     (Some '''') (Some ''ann@example.org'')) = None"
  by (simp add: put_file_def truthy_def)

section \<open>How a run ends\<close>

lemma reaches_loopD:
  assumes "reaches_loop a w g"
  obtains fetched where "truthy (credential a w)" "CHR ''/'' \<in> set (repo a)"
    "build_delay_getter (delay a) = Inr g" "input_lines a w \<noteq> []"
    "get_file (get_reply w) = Inr fetched"
  using assms by (cases "get_file (get_reply w)") (auto simp: reaches_loop_def starts_def)

lemma main_halt_outcome:
  assumes reach: "reaches_loop a w g" and live: "\<not> dry_run a"
    and k: "1 \<le> k" "k \<le> length (input_lines a w)"
    and good: "good_before w k"
    and halt: "\<And>st1. \<exists>es1 st2. iteration a w (locals_of a w g) k (input_lines a w ! (k - 1)) st1 = (es1, Halt st2 out) \<and>
                 committed st2 = committed st1 + d \<and>
                 map payload_content (writes es1) = [append_line (current_text st1) (input_lines a w ! (k - 1))]"
  shows "snd (snd (main a w)) = out"
proof -
  obtain i where ki: "k = Suc i" using k(1) by (cases k) auto
  have i: "i < length (input_lines a w)" using k(2) ki by simp
  from reach obtain fetched where s: "truthy (credential a w)" "CHR ''/'' \<in> set (repo a)"
    "build_delay_getter (delay a) = Inr g" and f: "get_file (get_reply w) = Inr fetched"
    by (rule reaches_loopD)
  from main_halts_at [OF s live f i good [unfolded ki], of out d] halt [unfolded ki]
  obtain es st where "main a w = (es, Some st, out)" by auto
  then show ?thesis by simp
qed

lemma main_completes:
  assumes reach: "reaches_loop a w g"
    and ok: "dry_run a \<or> good_before w (Suc (length (input_lines a w)))"
  shows "snd (snd (main a w)) = Returns"
proof -
  from reach obtain fetched where s: "truthy (credential a w)" "CHR ''/'' \<in> set (repo a)"
    "build_delay_getter (delay a) = Inr g" and ne: "input_lines a w \<noteq> []"
    and f: "get_file (get_reply w) = Inr fetched"
    by (rule reaches_loopD)
  let ?l = "locals_of a w g"
  let ?ls = "input_lines a w"
  have run: "main a w = (case commit_loop a w ?l 1 ?ls (initial_state fetched) of
                 (es, st, out) \<Rightarrow> (es, Some st, out))"
    by (rule main_loop [OF s ne f])
  show ?thesis
  proof (cases "dry_run a")
    case True
    then show ?thesis by (simp add: run loop_dry)
  next
    case False
    with ok have good: "good_before w (Suc (length ?ls))" by simp
    from loop_good [OF False good_beforeD [OF good], of ?l "initial_state fetched"]
    obtain es st' where
      loop: "\<And>rest. commit_loop a w ?l 1 (?ls @ rest) (initial_state fetched) =
               (case commit_loop a w ?l (1 + length ?ls) rest st' of (es', r) \<Rightarrow> (es @ es', r))"
      by blast
    from loop [of "[]"] show ?thesis by (simp add: run)
  qed
qed

section \<open>Exit status\<close>

text \<open>
  C4, as the code has it. The exit status is 2 when the credential is missing or the
  repository identifier has no slash, and also 2 when the delay specification is malformed:
  these two categories share one status. It is 1 when the initial fetch fails and when a
  write is answered with a status other than 200 and 201, and 130 when the user interrupts
  a write or a pause. The three statuses 2, 1 and 130 are non-zero and differ from each
  other. The status is 0 when there is nothing to commit and when the loop runs to its end,
  in a dry run or with every write accepted and no pause interrupted.
\<close>

theorem exit_statuses:
  "(\<not> truthy (credential a w) \<or> CHR ''/'' \<notin> set (repo a) \<longrightarrow>
      exit_status (snd (snd (main a w))) = Some 2) \<and>
   ((\<exists>e. build_delay_getter (delay a) = Inl e) \<longrightarrow>
      exit_status (snd (snd (main a w))) = Some 2) \<and>
   (starts a w g \<and> input_lines a w = [] \<longrightarrow>
      exit_status (snd (snd (main a w))) = Some 0) \<and>
   (starts a w g \<and> input_lines a w \<noteq> [] \<and> get_file (get_reply w) = Inl e \<and> e \<noteq> KeyboardInterrupt \<longrightarrow>
      exit_status (snd (snd (main a w))) = Some 1) \<and>
   (reaches_loop a w g \<and> \<not> dry_run a \<and> 1 \<le> k \<and> k \<le> length (input_lines a w) \<and> good_before w k \<and>
    put_reply w k = Reply code resp \<and> code \<noteq> 200 \<and> code \<noteq> 201 \<longrightarrow>
      exit_status (snd (snd (main a w))) = Some 1) \<and>
   (reaches_loop a w g \<and> \<not> dry_run a \<and> 1 \<le> k \<and> k \<le> length (input_lines a w) \<and> good_before w k \<and>
    (put_reply w k = Raises KeyboardInterrupt \<or>
     accepted (put_reply w k) \<and> k < length (input_lines a w) \<and> sleep_interrupted w k) \<longrightarrow>
      exit_status (snd (snd (main a w))) = Some 130) \<and>
   (reaches_loop a w g \<and> (dry_run a \<or> good_before w (Suc (length (input_lines a w)))) \<longrightarrow>
      exit_status (snd (snd (main a w))) = Some 0) \<and>
   (2::int) \<noteq> 0 \<and> (1::int) \<noteq> 0 \<and> (130::int) \<noteq> 0 \<and> (2::int) \<noteq> 1 \<and> (2::int) \<noteq> 130 \<and> (1::int) \<noteq> 130"
proof -
  have early: "\<not> truthy (credential a w) \<or> CHR ''/'' \<notin> set (repo a) \<longrightarrow>
      exit_status (snd (snd (main a w))) = Some 2"
    using main_early [of a w] by (auto simp: exit_status_def)
  have delay: "(\<exists>e. build_delay_getter (delay a) = Inl e) \<longrightarrow>
      exit_status (snd (snd (main a w))) = Some 2"
    using main_early [of a w] by (auto simp: exit_status_def)
  have empty: "starts a w g \<and> input_lines a w = [] \<longrightarrow>
      exit_status (snd (snd (main a w))) = Some 0"
    using main_nothing [of a w g] by (auto simp: exit_status_def starts_def)
  have fetch: "starts a w g \<and> input_lines a w \<noteq> [] \<and> get_file (get_reply w) = Inl e \<and> e \<noteq> KeyboardInterrupt \<longrightarrow>
      exit_status (snd (snd (main a w))) = Some 1"
    using main_fetch_fails [of a w g e] by (auto simp: exit_status_def starts_def)
  have rejected: "reaches_loop a w g \<and> \<not> dry_run a \<and> 1 \<le> k \<and> k \<le> length (input_lines a w) \<and> good_before w k \<and>
    put_reply w k = Reply code resp \<and> code \<noteq> 200 \<and> code \<noteq> 201 \<longrightarrow>
      exit_status (snd (snd (main a w))) = Some 1"
  proof (intro impI, elim conjE)
    assume h: "reaches_loop a w g" "\<not> dry_run a" "1 \<le> k" "k \<le> length (input_lines a w)" "good_before w k"
      "put_reply w k = Reply code resp" "code \<noteq> 200" "code \<noteq> 201"
    have "snd (snd (main a w)) = Exit 1"
      by (rule main_halt_outcome [OF h(1-5), of _ 0])
         (simp add: iteration_rejected [OF h(2,6-8)] put_file_def)
    then show "exit_status (snd (snd (main a w))) = Some 1" by (simp add: exit_status_def)
  qed
  have interrupted: "reaches_loop a w g \<and> \<not> dry_run a \<and> 1 \<le> k \<and> k \<le> length (input_lines a w) \<and> good_before w k \<and>
    (put_reply w k = Raises KeyboardInterrupt \<or>
     accepted (put_reply w k) \<and> k < length (input_lines a w) \<and> sleep_interrupted w k) \<longrightarrow>
      exit_status (snd (snd (main a w))) = Some 130"
  proof (intro impI, elim conjE)
    assume h: "reaches_loop a w g" "\<not> dry_run a" "1 \<le> k" "k \<le> length (input_lines a w)" "good_before w k"
      and i: "put_reply w k = Raises KeyboardInterrupt \<or>
        accepted (put_reply w k) \<and> k < length (input_lines a w) \<and> sleep_interrupted w k"
    from i have "snd (snd (main a w)) = Exit 130"
    proof
      assume p: "put_reply w k = Raises KeyboardInterrupt"
      show ?thesis
        by (rule main_halt_outcome [OF h, of _ 0])
           (simp add: iteration_put_raises [OF h(2) p] put_file_def)
    next
      assume s: "accepted (put_reply w k) \<and> k < length (input_lines a w) \<and> sleep_interrupted w k"
      then have lt: "k < total (locals_of a w g)" by (simp add: locals_of_def)
      from s have ac: "accepted (put_reply w k)" and si: "sleep_interrupted w k" by simp_all
      have halt: "\<exists>es1 st2. iteration a w (locals_of a w g) k (input_lines a w ! (k - 1)) st1 =
                     (es1, Halt st2 (Exit 130)) \<and>
                   committed st2 = committed st1 + 1 \<and>
                   map payload_content (writes es1) =
                     [append_line (current_text st1) (input_lines a w ! (k - 1))]" for st1
        using iteration_sleep_interrupted [OF h(2) ac lt si, of "input_lines a w ! (k - 1)" st1]
        by auto
      show ?thesis
        by (rule main_halt_outcome [OF h, of _ 1]) (rule halt)
    qed
    then show "exit_status (snd (snd (main a w))) = Some 130" by (simp add: exit_status_def)
  qed
  have completes: "reaches_loop a w g \<and> (dry_run a \<or> good_before w (Suc (length (input_lines a w)))) \<longrightarrow>
      exit_status (snd (snd (main a w))) = Some 0"
    using main_completes [of a w g] by (auto simp: exit_status_def)
  show ?thesis
    by (intro conjI early delay empty fetch rejected interrupted completes) simp_all
qed

lemma example_reaches:
  "reaches_loop example_args example_world (Fixed 0)"
  "reaches_loop example_args rejecting_world (Fixed 0)"
  "reaches_loop example_args interrupted_world (Fixed 0)"
  by (simp_all add: reaches_loop_def starts_def example_lines example_starts(3),
      simp_all add: example_args_def example_world_def rejecting_world_def interrupted_world_def
        credential_def truthy_def get_file_def)

lemma delay_zero: "build_delay_getter ''0'' = Inr (Fixed 0)"
  by code_simp

theorem exit_statuses_witness:
  "exit_status (snd (snd (main (example_args\<lparr>token := None\<rparr>) example_world))) = Some 2 \<and>
   exit_status (snd (snd (main (example_args\<lparr>delay := ''abc''\<rparr>) example_world))) = Some 2 \<and>
   exit_status (snd (snd (main (example_args\<lparr>text_arg := Some ''''\<rparr>) example_world))) = Some 0 \<and>
   exit_status (snd (snd (main example_args unreachable_world))) = Some 1 \<and>
   exit_status (snd (snd (main example_args rejecting_world))) = Some 1 \<and>
   exit_status (snd (snd (main example_args interrupted_world))) = Some 130 \<and>
   exit_status (snd (snd (main example_args example_world))) = Some 0"
proof -
  have a: "\<not> truthy (credential (example_args\<lparr>token := None\<rparr>) example_world)"
    by (simp add: credential_def truthy_def example_world_def)
  have b: "build_delay_getter (delay (example_args\<lparr>delay := ''abc''\<rparr>)) = Inl ValueError"
    by code_simp
  have c: "starts (example_args\<lparr>text_arg := Some ''''\<rparr>) example_world (Fixed 0)"
    "input_lines (example_args\<lparr>text_arg := Some ''''\<rparr>) example_world = []"
    by (simp_all add: starts_def,
        simp_all add: delay_zero example_args_def example_world_def credential_def truthy_def input_lines_def
          preprocess_def splitlines_def read_input_def)
  have d: "starts example_args unreachable_world (Fixed 0)" "input_lines example_args unreachable_world \<noteq> []"
    "get_file (get_reply unreachable_world) = Inl RuntimeError" "RuntimeError \<noteq> KeyboardInterrupt"
    by (simp_all add: starts_def example_starts(3) example_lines,
        simp_all add: example_args_def example_world_def unreachable_world_def credential_def truthy_def
          get_file_def)
  have live: "\<not> dry_run example_args" by (simp add: example_args_def)
  have e: "(1::nat) \<le> 2" "2 \<le> length (input_lines example_args rejecting_world)"
    "good_before rejecting_world 2"
    "put_reply rejecting_world 2 = Reply 500 \<lparr> content_sha = Absent \<rparr>" "(500::nat) \<noteq> 200" "(500::nat) \<noteq> 201"
    by (simp_all add: example_lines,
        simp_all add: example_world_def rejecting_world_def good_before_def accepted_def)
  have f: "(1::nat) \<le> 1" "1 \<le> length (input_lines example_args interrupted_world)"
    "good_before interrupted_world 1"
    "accepted (put_reply interrupted_world 1)" "1 < length (input_lines example_args interrupted_world)"
    "sleep_interrupted interrupted_world 1"
    by (simp_all add: example_lines,
        simp_all add: example_world_def interrupted_world_def good_before_def accepted_def)
  have g: "good_before example_world (Suc (length (input_lines example_args example_world)))"
    by (rule example_starts(8))
  from exit_statuses [of "example_args\<lparr>token := None\<rparr>" example_world] a
  have 1: "exit_status (snd (snd (main (example_args\<lparr>token := None\<rparr>) example_world))) = Some 2"
    by blast
  from exit_statuses [of "example_args\<lparr>delay := ''abc''\<rparr>" example_world] b
  have 2: "exit_status (snd (snd (main (example_args\<lparr>delay := ''abc''\<rparr>) example_world))) = Some 2"
    by blast
  from exit_statuses [of "example_args\<lparr>text_arg := Some ''''\<rparr>" example_world "Fixed 0"] c
  have 3: "exit_status (snd (snd (main (example_args\<lparr>text_arg := Some ''''\<rparr>) example_world))) = Some 0"
    by blast
  from exit_statuses [of example_args unreachable_world "Fixed 0" RuntimeError] d
  have 4: "exit_status (snd (snd (main example_args unreachable_world))) = Some 1"
    by blast
  from exit_statuses [of example_args rejecting_world "Fixed 0" _ 2 500 "\<lparr> content_sha = Absent \<rparr>"]
    example_reaches(2) live e
  have 5: "exit_status (snd (snd (main example_args rejecting_world))) = Some 1"
    by blast
  from exit_statuses [of example_args interrupted_world "Fixed 0" _ 1]
    example_reaches(3) live f
  have 6: "exit_status (snd (snd (main example_args interrupted_world))) = Some 130"
    by blast
  from exit_statuses [of example_args example_world "Fixed 0"] example_reaches(1) g
  have 7: "exit_status (snd (snd (main example_args example_world))) = Some 0"
    by blast
  from 1 2 3 4 5 6 7 show ?thesis by blast
qed

theorem exit_statuses_counterexample:
  "\<not> truthy (credential (example_args\<lparr>token := None\<rparr>) example_world) \<and>
   truthy (credential (example_args\<lparr>delay := ''abc''\<rparr>) example_world) \<and>
   CHR ''/'' \<in> set (repo (example_args\<lparr>delay := ''abc''\<rparr>)) \<and>
   build_delay_getter (delay (example_args\<lparr>delay := ''abc''\<rparr>)) = Inl ValueError \<and>
   exit_status (snd (snd (main (example_args\<lparr>token := None\<rparr>) example_world))) = Some 2 \<and>
   exit_status (snd (snd (main (example_args\<lparr>delay := ''abc''\<rparr>) example_world))) = Some 2"
  by code_simp

section \<open>Characters of a duration\<close>


















section \<open>What the pattern matches\<close>













section \<open>Parsing a duration\<close>





section \<open>The delay getter\<close>



end
